theory Spec2Isabelle
  imports Main "HOL-Library.Sublist"
begin

section \<open>Texts\<close>

text \<open>
  A text is a \<^typ>\<open>string\<close>: the list of its code units, here the units below 256.
  \<open>is_space\<close> is the white space that \<^verbatim>\<open>String.prototype.trim\<close> removes and that
  \<^verbatim>\<open>\s\<close> matches (tab, line feed, vertical tab, form feed, carriage return, space and
  the no-break space 0xA0); \<open>is_word\<close> is \<^verbatim>\<open>\w\<close>, that is \<^verbatim>\<open>[A-Za-z0-9_]\<close>.
\<close>

definition is_space :: "char \<Rightarrow> bool" where
  "is_space c \<longleftrightarrow> c \<in> {CHR 0x09, CHR 0x0A, CHR 0x0B, CHR 0x0C, CHR 0x0D, CHR 0x20, CHR 0xA0}"

definition is_word :: "char \<Rightarrow> bool" where
  "is_word c \<longleftrightarrow>
     (let n = of_char c :: nat
      in (65 \<le> n \<and> n \<le> 90) \<or> (97 \<le> n \<and> n \<le> 122) \<or> (48 \<le> n \<and> n \<le> 57) \<or> n = 95)"

definition trim :: "string \<Rightarrow> string" where
  "trim s = rev (dropWhile is_space (rev (dropWhile is_space s)))"

text \<open>
  \<^verbatim>\<open>s.split(sep)\<close> for a string separator: the pieces between the occurrences of
  \<open>sep\<close>, found from the left without overlap; an empty separator cuts between all
  code units.
\<close>

function split_from :: "string \<Rightarrow> string \<Rightarrow> string \<Rightarrow> string list" where
  "split_from sep acc s =
     (if sep = [] then map (\<lambda>c. [c]) s
      else if prefix sep s then rev acc # split_from sep [] (drop (length sep) s)
      else (case s of [] \<Rightarrow> [rev acc] | c # cs \<Rightarrow> split_from sep (c # acc) cs))"
  by pat_completeness auto
termination
  by (relation "measure (\<lambda>(sep, acc, s). length s)") (auto simp: prefix_def)

definition split :: "string \<Rightarrow> string \<Rightarrow> string list" where
  "split sep s = split_from sep [] s"

definition PROBLEM_SEPARATOR :: string where
  "PROBLEM_SEPARATOR = ''---PROBLEM_SEPARATOR---''"

section \<open>Data model\<close>

datatype token_type = Heading | Paragraph | Space | Code | Other

record token =
  tok_type :: token_type
  tok_depth :: nat
  tok_text :: string
  tok_raw :: string

record ExplanationStep =
  title :: string
  content :: string

record ProblemSolution =
  problem :: string
  explanation :: string
  answer :: string
  steps :: "ExplanationStep list"

record SolveResponse =
  problems :: "ProblemSolution list"

record ImproveResponse =
  improved_answer :: string
  improved_explanation :: string
  improved_steps :: "ExplanationStep list"

section \<open>MarkdownSectionParser\<close>

text \<open>
  \<open>trimMarkdownFence\<close>. The pattern \<^verbatim>\<open>/^```(?:\w+\s*)?\n?([\s\S]*)\n?```$/\<close> is matched
  against the trimmed content. It matches exactly the texts of at least six code units
  that begin and end with three backticks. The backtracking order fixes the captured
  group: the optional tag takes the longest run of word characters after the opening
  backticks and, when that run is not empty, the longest run of white space after it;
  when there is no tag, one line feed is skipped if present; the greedy group then
  reaches up to the closing backticks, so the final \<^verbatim>\<open>\n?\<close> matches nothing.
\<close>

definition fence :: string where
  "fence = [CHR 0x60, CHR 0x60, CHR 0x60]"

definition fence_match :: "string \<Rightarrow> string option" where
  "fence_match s =
     (if prefix fence s \<and> suffix fence s \<and> 6 \<le> length s then
        let inner = take (length s - 6) (drop 3 s);
            tag = takeWhile is_word inner;
            after = dropWhile is_word inner
        in Some (if tag \<noteq> [] then dropWhile is_space after
                 else (case inner of [] \<Rightarrow> [] | c # r \<Rightarrow> if c = CHR 0x0A then r else inner))
      else None)"

definition trimMarkdownFence :: "string \<Rightarrow> string" where
  "trimMarkdownFence content' =
     (case fence_match (trim content') of
        Some m \<Rightarrow> trim m
      | None \<Rightarrow> trim content')"

text \<open>
  The constructor: the tokens of the text without its fence. The block lexer \<open>lexer\<close> is
  the \<^verbatim>\<open>lexer\<close> of the package \<^verbatim>\<open>marked\<close>, which is not part of the sources: it is
  a parameter of every operation that tokenizes.
\<close>

definition MarkdownSectionParser :: "(string \<Rightarrow> token list) \<Rightarrow> string \<Rightarrow> token list" where
  "MarkdownSectionParser lexer markdown = lexer (trimMarkdownFence markdown)"

text \<open>
  \<open>getSectionsByH3\<close>. The state of the loop is the object \<open>sections\<close> and
  \<open>currentKey\<close> (\<open>None\<close> is \<^verbatim>\<open>null\<close>). An empty key is stored in \<open>currentKey\<close> before
  the \<^verbatim>\<open>continue\<close>; being falsy it makes the second branch drop what follows.

  \<open>sections\<close> is a plain object, modelled by the map of its own properties. \<open>assign\<close>
  is the assignment \<^verbatim>\<open>sections[key] = v\<close>: it creates or overwrites an own property,
  except for the key \<^verbatim>\<open>__proto__\<close>, where the inherited setter ignores a string.
  \<^verbatim>\<open>+=\<close> reads the property first; every key it reads has been assigned by the
  heading branch, and for a key that is no own property (only \<^verbatim>\<open>__proto__\<close>, whose
  assignment changes nothing) the text read plays no part, written here as for a missing
  property, \<^verbatim>\<open>undefined\<close>.
\<close>

type_synonym sections = "string \<rightharpoonup> string"

definition is_heading :: "nat \<Rightarrow> token \<Rightarrow> bool" where
  "is_heading d t \<longleftrightarrow> tok_type t = Heading \<and> tok_depth t = d"

definition assign :: "sections \<Rightarrow> string \<Rightarrow> string \<Rightarrow> sections" where
  "assign sections key v = (if key = ''__proto__'' then sections else sections(key \<mapsto> v))"

fun sections_step :: "sections \<times> string option \<Rightarrow> token \<Rightarrow> sections \<times> string option" where
  "sections_step (sections, currentKey) t =
     (if is_heading 3 t then
        (let key = trim (tok_text t)
         in if key = [] then (sections, Some key)
            else (assign sections key [], Some key))
      else (case currentKey of
              None \<Rightarrow> (sections, currentKey)
            | Some key \<Rightarrow>
                if key = [] then (sections, currentKey)
                else (assign sections key
                        ((case sections key of None \<Rightarrow> ''undefined'' | Some v \<Rightarrow> v) @ tok_raw t),
                      currentKey)))"

text \<open>The last loop trims every own property; the result is the object returned.\<close>

definition getSectionsByH3 :: "token list \<Rightarrow> sections" where
  "getSectionsByH3 tokens =
     (let sections = fst (foldl sections_step (Map.empty, None) tokens)
      in (\<lambda>key. map_option trim (sections key)))"

text \<open>
  \<open>parseSteps\<close>. The loop keeps the steps pushed so far (the array \<^verbatim>\<open>steps\<close>) and
  \<open>currentStep\<close>; an empty text is falsy and returns at once.
\<close>

fun steps_step ::
  "ExplanationStep list \<times> ExplanationStep option \<Rightarrow> token \<Rightarrow>
   ExplanationStep list \<times> ExplanationStep option" where
  "steps_step (pushed, currentStep) t =
     (if is_heading 4 t then
        ((case currentStep of None \<Rightarrow> pushed | Some s \<Rightarrow> pushed @ [s]),
         Some \<lparr>title = trim (tok_text t), content = []\<rparr>)
      else (case currentStep of
              None \<Rightarrow> (pushed, None)
            | Some s \<Rightarrow> (pushed, Some (s\<lparr>content := content s @ tok_raw t\<rparr>))))"

definition parseSteps :: "(string \<Rightarrow> token list) \<Rightarrow> string \<Rightarrow> ExplanationStep list" where
  "parseSteps lexer explanationText =
     (if explanationText = [] then []
      else
        let (pushed, currentStep) = foldl steps_step ([], None) (lexer explanationText);
            all_steps = (case currentStep of None \<Rightarrow> pushed | Some s \<Rightarrow> pushed @ [s]);
            cleaned = map (\<lambda>s. s\<lparr>content := trim (content s)\<rparr>) all_steps
        in if cleaned = [] \<and> trim explanationText \<noteq> []
           then [\<lparr>title = ''Detailed Explanation'', content = trim explanationText\<rparr>]
           else cleaned)"

section \<open>Solve response\<close>

definition or_empty :: "string option \<Rightarrow> string" where
  "or_empty v = (case v of None \<Rightarrow> [] | Some s \<Rightarrow> s)"

definition solve_chunk ::
  "(string \<Rightarrow> token list) \<Rightarrow> ProblemSolution list \<Rightarrow> string \<Rightarrow> ProblemSolution list" where
  "solve_chunk lexer found chunk =
     (if trim chunk = [] then found
      else
        let sections = getSectionsByH3 (MarkdownSectionParser lexer chunk);
            problemText = or_empty (sections ''PROBLEM_TEXT'');
            explanation = or_empty (sections ''EXPLANATION'');
            answer = or_empty (sections ''ANSWER'')
        in if problemText \<noteq> [] \<or> explanation \<noteq> [] \<or> answer \<noteq> []
           then found @
                  [\<lparr>problem = problemText, explanation = explanation, answer = answer,
                    steps = parseSteps lexer explanation\<rparr>]
           else found)"

definition error_solution :: "string \<Rightarrow> ProblemSolution" where
  "error_solution response =
     \<lparr>problem = ''Error parsing problem text'', explanation = response, answer = [],
      steps = [\<lparr>title = ''Error'', content = response\<rparr>]\<rparr>"

definition parseSolveResponse :: "(string \<Rightarrow> token list) \<Rightarrow> string \<Rightarrow> SolveResponse" where
  "parseSolveResponse lexer response =
     (let rawChunks = split PROBLEM_SEPARATOR response;
          problems = foldl (solve_chunk lexer) [] rawChunks
      in if problems = [] \<and> trim response \<noteq> []
         then \<lparr>problems = [error_solution response]\<rparr>
         else \<lparr>problems = problems\<rparr>)"

section \<open>Improve response\<close>

definition falsy :: "string option \<Rightarrow> bool" where
  "falsy v \<longleftrightarrow> v = None \<or> v = Some []"

definition parseImproveResponse ::
  "(string \<Rightarrow> token list) \<Rightarrow> string \<Rightarrow> ImproveResponse option" where
  "parseImproveResponse lexer response =
     (let sections = getSectionsByH3 (MarkdownSectionParser lexer response);
          improvedExplanation = sections ''IMPROVED_EXPLANATION'';
          improvedAnswer = sections ''IMPROVED_ANSWER''
      in if falsy improvedExplanation \<and> falsy improvedAnswer then None
         else Some \<lparr>improved_answer = or_empty improvedAnswer,
                    improved_explanation = or_empty improvedExplanation,
                    improved_steps = parseSteps lexer (or_empty improvedExplanation)\<rparr>)"

section \<open>A block lexer for heading and paragraph lines\<close>

text \<open>
  Modelled from the spec: the block tokenizer, which the sources import from the
  package \<^verbatim>\<open>marked\<close> and which is not among them. The spec asks of it an ordered
  sequence of tokens with kind, depth, inline text and raw source text, whose raw texts
  put together give the input back, a line \<^verbatim>\<open>### KEY\<close> being a heading of depth 3 and a
  line \<^verbatim>\<open>#### title\<close> one of depth 4. \<open>md_lexer\<close> covers texts made of heading lines,
  blank lines and plain paragraph lines, with line feeds as line ends: it yields one
  token for each line, the line end included in the raw text. A blank line holds only
  spaces and tabs. A heading line has up to three spaces, one to six \<^verbatim>\<open>#\<close>, then white
  space or the end of the text; its text is the rest of the line, trimmed, without a
  closing run of \<^verbatim>\<open>#\<close> that a space precedes. Where the package joins the lines of one
  paragraph, or blank lines with the heading before them, into one token, this lexer
  yields several; the parser only puts the raw texts of the tokens between two headings
  together, so its results are the same. Lists, block quotes, code blocks, tables, raw
  markup blocks and underlined headings are not covered.
\<close>

fun lines_from :: "string \<Rightarrow> string \<Rightarrow> string list" where
  "lines_from acc [] = (if acc = [] then [] else [rev acc])"
| "lines_from acc (c # cs) =
     (if c = CHR 0x0A then rev (c # acc) # lines_from [] cs else lines_from (c # acc) cs)"

definition closing_hashes :: "string \<Rightarrow> string" where
  "closing_hashes t =
     (if t \<noteq> [] \<and> last t = CHR ''#'' then
        let trimmed = rev (dropWhile (\<lambda>c. c = CHR ''#'') (rev t))
        in if trimmed = [] \<or> last trimmed = CHR '' '' then trim trimmed else t
      else t)"

definition atx_heading :: "string \<Rightarrow> (nat \<times> string) option" where
  "atx_heading line =
     (let indent = length (takeWhile (\<lambda>c. c = CHR '' '') line);
          l = drop indent line;
          n = length (takeWhile (\<lambda>c. c = CHR ''#'') l);
          rest = drop n l
      in if indent \<le> 3 \<and> 1 \<le> n \<and> n \<le> 6 \<and> (rest = [] \<or> is_space (hd rest))
         then Some (n, closing_hashes (trim rest)) else None)"

definition is_blank :: "string \<Rightarrow> bool" where
  "is_blank line \<longleftrightarrow> list_all (\<lambda>c. c = CHR '' '' \<or> c = CHR 0x09 \<or> c = CHR 0x0A) line"

definition without_line_end :: "string \<Rightarrow> string" where
  "without_line_end line = (if line \<noteq> [] \<and> last line = CHR 0x0A then butlast line else line)"

definition line_token :: "string \<Rightarrow> token" where
  "line_token line =
     (case atx_heading line of
        Some (n, t) \<Rightarrow> \<lparr>tok_type = Heading, tok_depth = n, tok_text = t, tok_raw = line\<rparr>
      | None \<Rightarrow>
          if is_blank line
          then \<lparr>tok_type = Space, tok_depth = 0, tok_text = [], tok_raw = line\<rparr>
          else \<lparr>tok_type = Paragraph, tok_depth = 0, tok_text = without_line_end line,
                tok_raw = line\<rparr>)"

definition md_lexer :: "string \<Rightarrow> token list" where
  "md_lexer s = map line_token (lines_from [] s)"

section \<open>Notions used by the properties\<close>

text \<open>A step, and a problem record, all of whose texts are their own trimmed form.\<close>

definition step_trimmed :: "ExplanationStep \<Rightarrow> bool" where
  "step_trimmed s \<longleftrightarrow> trim (title s) = title s \<and> trim (content s) = content s"

definition fully_trimmed :: "ProblemSolution \<Rightarrow> bool" where
  "fully_trimmed p \<longleftrightarrow>
     trim (problem p) = problem p \<and> trim (explanation p) = explanation p \<and>
     trim (answer p) = answer p \<and> list_all step_trimmed (steps p)"

text \<open>
  A body wrapped once in a fence: the opening backticks, a tag of word characters
  (empty when there is no language tag), a line feed, the body, a line feed and the
  closing backticks.
\<close>

definition wrap_fence :: "string \<Rightarrow> string \<Rightarrow> string" where
  "wrap_fence tag body = fence @ tag @ ''\<newline>'' @ body @ ''\<newline>'' @ fence"

text \<open>
  A well-formed text of one problem: no separator starts inside it, also when a
  separator follows it, it is not blank, and one of its three sections is not empty.
  The first condition holds for every text that does not hold \<open>separator_stem\<close>, the
  separator without its last three dashes.
\<close>

definition separator_stem :: string where
  "separator_stem = ''---PROBLEM_SEPARATOR''"

definition well_formed_problem :: "(string \<Rightarrow> token list) \<Rightarrow> string \<Rightarrow> bool" where
  "well_formed_problem lexer t \<longleftrightarrow>
     \<not> sublist PROBLEM_SEPARATOR (t @ butlast PROBLEM_SEPARATOR) \<and> trim t \<noteq> [] \<and>
     (let sections = getSectionsByH3 (MarkdownSectionParser lexer t)
      in or_empty (sections ''PROBLEM_TEXT'') \<noteq> [] \<or> or_empty (sections ''EXPLANATION'') \<noteq> [] \<or>
         or_empty (sections ''ANSWER'') \<noteq> [])"

text \<open>The texts on which the properties are evaluated.\<close>

definition round_trip_input :: string where
  "round_trip_input =
     ''### PROBLEM_TEXT\<newline>P\<newline>### EXPLANATION\<newline>#### Step 1: A\<newline>C1\<newline>#### Step 2: B\<newline>C2\<newline>### ANSWER\<newline>X''"

definition second_input :: string where
  "second_input = ''### PROBLEM_TEXT\<newline>Q\<newline>### ANSWER\<newline>Y''"



definition two_fences :: string where
  "two_fences =
     fence @ ''\<newline>a\<newline>'' @ fence @ ''\<newline>middle\<newline>'' @ fence @ ''\<newline>b\<newline>'' @ fence"

definition answer_only :: string where
  "answer_only = ''### IMPROVED_ANSWER\<newline>42''"

section \<open>Trimming\<close>

lemma dropWhile_hd_keep: "xs \<noteq> [] \<Longrightarrow> \<not> P (hd xs) \<Longrightarrow> dropWhile P xs = xs"
  by (cases xs) auto

lemma dropWhile_all: "\<forall>x\<in>set xs. P x \<Longrightarrow> dropWhile P xs = []"
  by simp

lemma last_dropWhile_nonempty: "dropWhile P xs \<noteq> [] \<Longrightarrow> last (dropWhile P xs) = last xs"
  by (metis last_appendR takeWhile_dropWhile_id)

lemma dropWhile_all_iff: "(\<forall>x\<in>set (dropWhile P xs). P x) \<longleftrightarrow> dropWhile P xs = []"
proof
  assume a: "\<forall>x\<in>set (dropWhile P xs). P x"
  show "dropWhile P xs = []"
  proof (rule ccontr)
    assume n: "dropWhile P xs \<noteq> []"
    then have "\<not> P (hd (dropWhile P xs))" by (rule hd_dropWhile)
    moreover have "hd (dropWhile P xs) \<in> set (dropWhile P xs)" using n by simp
    ultimately show False using a by blast
  qed
next
  assume "dropWhile P xs = []"
  then show "\<forall>x\<in>set (dropWhile P xs). P x" by (simp only: list.set ball_empty)
qed

lemma trim_Nil_iff: "trim s = [] \<longleftrightarrow> (\<forall>c\<in>set s. is_space c)"
proof -
  have "trim s = [] \<longleftrightarrow> (\<forall>x\<in>set (dropWhile is_space s). is_space x)"
    by (simp add: trim_def dropWhile_eq_Nil_conv)
  also have "\<dots> \<longleftrightarrow> dropWhile is_space s = []" by (rule dropWhile_all_iff)
  also have "\<dots> \<longleftrightarrow> (\<forall>c\<in>set s. is_space c)" by (simp add: dropWhile_eq_Nil_conv)
  finally show ?thesis .
qed

lemma trim_Nil [simp]: "trim [] = []"
  by (simp add: trim_def)

lemma trim_fixed:
  assumes "t \<noteq> []" "\<not> is_space (hd t)" "\<not> is_space (last t)"
  shows "trim t = t"
proof -
  have "dropWhile is_space t = t" using assms by (simp add: dropWhile_hd_keep)
  moreover have "dropWhile is_space (rev t) = rev t"
    using assms by (simp add: dropWhile_hd_keep hd_rev)
  ultimately show ?thesis by (simp add: trim_def)
qed

lemma trim_ends:
  assumes "trim s \<noteq> []"
  shows "\<not> is_space (hd (trim s)) \<and> \<not> is_space (last (trim s))"
proof -
  let ?d = "dropWhile is_space s"
  let ?r = "dropWhile is_space (rev ?d)"
  have r: "?r \<noteq> []" using assms by (simp add: trim_def)
  have d: "?d \<noteq> []"
  proof
    assume "?d = []"
    then have "?r = []" by (simp only: rev.simps dropWhile.simps)
    with r show False by blast
  qed
  have "\<not> is_space (hd ?r)" using r by (rule hd_dropWhile)
  then have l: "\<not> is_space (last (trim s))" using r by (simp add: trim_def last_rev)
  have "last ?r = last (rev ?d)" using r by (rule last_dropWhile_nonempty)
  also have "\<dots> = hd ?d" using d by (simp add: last_rev)
  finally have "hd (trim s) = hd ?d" using r by (simp add: trim_def hd_rev)
  moreover have "\<not> is_space (hd ?d)" using d by (rule hd_dropWhile)
  ultimately show ?thesis using l by simp
qed

lemma trim_idem [simp]: "trim (trim s) = trim s"
proof (cases "trim s = []")
  case True
  then show ?thesis by simp
next
  case False
  then show ?thesis using trim_ends [OF False] by (intro trim_fixed) simp_all
qed

lemma trim_dropWhile [simp]: "trim (dropWhile is_space s) = trim s"
  by (simp add: trim_def dropWhile_idem)

lemma trim_Cons_space: "is_space c \<Longrightarrow> trim (c # s) = trim s"
  by (simp add: trim_def)

lemma trim_snoc_space: "is_space c \<Longrightarrow> trim (s @ [c]) = trim s"
  by (simp add: trim_def dropWhile_append dropWhile_all)

lemma newline_space: "is_space (CHR 0x0A)"
  by (simp add: is_space_def)

lemma newline_not_word: "\<not> is_word (CHR 0x0A)"
  by (simp add: is_word_def)

lemma word_not_dash: "is_word c \<Longrightarrow> c \<noteq> CHR ''-''"
  by (auto simp: is_word_def)

section \<open>The loop of the step splitter\<close>

lemma steps_step_none:
  "\<forall>t\<in>set ts. \<not> is_heading 4 t \<Longrightarrow> foldl steps_step (acc, None) ts = (acc, None)"
  by (induction ts) auto

lemma steps_step_titles:
  assumes "\<forall>s\<in>set pushed. trim (title s) = title s"
    and "\<forall>s. cur = Some s \<longrightarrow> trim (title s) = title s"
    and "steps_step (pushed, cur) t = (pushed', cur')"
  shows "(\<forall>s\<in>set pushed'. trim (title s) = title s) \<and>
         (\<forall>s. cur' = Some s \<longrightarrow> trim (title s) = title s)"
  using assms by (auto split: if_splits option.splits)

lemma foldl_steps_titles:
  assumes "\<forall>s\<in>set pushed. trim (title s) = title s"
    and "\<forall>s. cur = Some s \<longrightarrow> trim (title s) = title s"
    and "foldl steps_step (pushed, cur) ts = (pushed', cur')"
  shows "(\<forall>s\<in>set pushed'. trim (title s) = title s) \<and>
         (\<forall>s. cur' = Some s \<longrightarrow> trim (title s) = title s)"
  using assms
proof (induction ts arbitrary: pushed cur)
  case Nil
  then show ?case by simp
next
  case (Cons t ts)
  obtain p1 c1 where st: "steps_step (pushed, cur) t = (p1, c1)"
    by (cases "steps_step (pushed, cur) t")
  from steps_step_titles [OF Cons.prems(1) Cons.prems(2) st]
  have "\<forall>s\<in>set p1. trim (title s) = title s" "\<forall>s. c1 = Some s \<longrightarrow> trim (title s) = title s"
    by blast+
  moreover have "foldl steps_step (p1, c1) ts = (pushed', cur')"
    using Cons.prems(3) st by simp
  ultimately show ?case by (rule Cons.IH)
qed

lemma trim_fallback_title: "trim ''Detailed Explanation'' = ''Detailed Explanation''"
  by code_simp

lemma parseSteps_trimmed:
  assumes "s \<in> set (parseSteps lexer e)"
  shows "step_trimmed s"
proof -
  obtain pushed cur where f: "foldl steps_step ([], None) (lexer e) = (pushed, cur)"
    by (cases "foldl steps_step ([], None) (lexer e)")
  have inv: "(\<forall>s\<in>set pushed. trim (title s) = title s) \<and>
             (\<forall>s. cur = Some s \<longrightarrow> trim (title s) = title s)"
    by (rule foldl_steps_titles [OF _ _ f]) simp_all
  show ?thesis
    using assms inv f
    by (auto simp: parseSteps_def Let_def step_trimmed_def trim_fallback_title
        split: if_splits option.splits)
qed

section \<open>The loop of the section grouper\<close>

lemma getSectionsByH3_trimmed: "getSectionsByH3 ts k = Some v \<Longrightarrow> trim v = v"
  by (auto simp: getSectionsByH3_def Let_def)

lemma or_empty_section_trimmed:
  "trim (or_empty (getSectionsByH3 ts k)) = or_empty (getSectionsByH3 ts k)"
  by (cases "getSectionsByH3 ts k") (simp_all add: or_empty_def getSectionsByH3_trimmed)







lemma sections_step_proto:
  "sections_step (m, cur) t = (m1, c1) \<Longrightarrow> m ''__proto__'' = None \<Longrightarrow> m1 ''__proto__'' = None"
  by (auto simp: Let_def assign_def split: if_splits option.splits)

lemma foldl_sections_proto:
  "m ''__proto__'' = None \<Longrightarrow> fst (foldl sections_step (m, cur) ts) ''__proto__'' = None"
proof (induction ts arbitrary: m cur)
  case Nil
  then show ?case by simp
next
  case (Cons t ts)
  obtain m1 c1 where st: "sections_step (m, cur) t = (m1, c1)"
    by (cases "sections_step (m, cur) t")
  have "m1 ''__proto__'' = None" using st Cons.prems by (rule sections_step_proto)
  then have "fst (foldl sections_step (m1, c1) ts) ''__proto__'' = None" by (rule Cons.IH)
  then show ?case using st by simp
qed

lemma getSectionsByH3_proto: "getSectionsByH3 ts ''__proto__'' = None"
  using foldl_sections_proto [of Map.empty None ts] by (simp add: getSectionsByH3_def Let_def)


section \<open>Splitting at the separator\<close>

lemma sep_nonempty: "PROBLEM_SEPARATOR \<noteq> []"
  by (simp add: PROBLEM_SEPARATOR_def)

lemma sep_ends: "hd PROBLEM_SEPARATOR = CHR ''-'' \<and> last PROBLEM_SEPARATOR = CHR ''-''"
  by (simp add: PROBLEM_SEPARATOR_def)

lemma split_from_chars:
  "c \<in> set (split_from sep acc s) \<Longrightarrow> set c \<subseteq> set acc \<union> set s"
proof (induction sep acc s arbitrary: c rule: split_from.induct)
  case (1 sep acc s)
  show ?case
  proof (cases "sep = []")
    case True
    with "1.prems" show ?thesis by (subst (asm) split_from.simps) auto
  next
    case ne: False
    show ?thesis
    proof (cases "prefix sep s")
      case True
      with ne "1.prems" have "c = rev acc \<or> c \<in> set (split_from sep [] (drop (length sep) s))"
        by (subst (asm) split_from.simps) auto
      then show ?thesis
      proof
        assume "c = rev acc"
        then show ?thesis by auto
      next
        assume "c \<in> set (split_from sep [] (drop (length sep) s))"
        from "1.IH"(1) [OF ne True this] show ?thesis
          by (auto dest: in_set_dropD)
      qed
    next
      case False
      show ?thesis
      proof (cases s)
        case Nil
        with ne False "1.prems" show ?thesis by (subst (asm) split_from.simps) auto
      next
        case (Cons x xs)
        with ne False "1.prems" have "c \<in> set (split_from sep (x # acc) xs)"
          by (subst (asm) split_from.simps) auto
        from "1.IH"(2) [OF ne False Cons this] show ?thesis using Cons by auto
      qed
    qed
  qed
qed

lemma split_from_clean:
  "sep \<noteq> [] \<Longrightarrow> \<not> sublist sep s \<Longrightarrow> split_from sep acc s = [rev acc @ s]"
proof (induction s arbitrary: acc)
  case Nil
  then show ?case by (subst split_from.simps) simp
next
  case (Cons c cs)
  then have np: "\<not> prefix sep (c # cs)" and ns: "\<not> sublist sep cs"
    by (auto simp: sublist_Cons_right)
  have "split_from sep acc (c # cs) = split_from sep (c # acc) cs"
    using Cons.prems(1) np by (subst split_from.simps) simp
  then show ?case using Cons.IH [OF Cons.prems(1) ns, of "c # acc"] by simp
qed

lemma split_from_join:
  "sep \<noteq> [] \<Longrightarrow> \<not> sublist sep (a @ butlast sep) \<Longrightarrow>
   split_from sep acc (a @ sep @ b) = (rev acc @ a) # split_from sep [] b"
proof (induction a arbitrary: acc)
  case Nil
  then show ?case by (subst split_from.simps) simp
next
  case (Cons c cs)
  have np: "\<not> prefix sep ((c # cs) @ sep @ b)"
  proof
    assume p: "prefix sep ((c # cs) @ sep @ b)"
    have "prefix (butlast sep) (sep @ b)"
      by (metis Cons.prems(1) append_butlast_last_id append_assoc prefixI)
    then have q: "prefix ((c # cs) @ butlast sep) ((c # cs) @ sep @ b)" by simp
    have "length sep \<le> length ((c # cs) @ butlast sep)" by simp
    from prefix_length_prefix [OF p q this] have "sublist sep ((c # cs) @ butlast sep)"
      by (rule prefix_imp_sublist)
    with Cons.prems(2) show False by simp
  qed
  have ns: "\<not> sublist sep (cs @ butlast sep)"
    using Cons.prems(2) by (simp add: sublist_Cons_right)
  have "split_from sep acc ((c # cs) @ sep @ b) = split_from sep (c # acc) (cs @ sep @ b)"
    using Cons.prems(1) np by (subst split_from.simps) simp
  then show ?case using Cons.IH [OF Cons.prems(1) ns, of "c # acc"] by simp
qed

lemma split_single: "\<not> sublist PROBLEM_SEPARATOR s \<Longrightarrow> split PROBLEM_SEPARATOR s = [s]"
  using split_from_clean [OF sep_nonempty, of s "[]"] by (simp add: split_def)

lemma drop_prefix_mono: "prefix xs ys \<Longrightarrow> prefix (drop n xs) (drop n ys)"
  by (auto simp: prefix_def)

lemma sep_no_border:
  "\<forall>d\<in>set [1..<20]. \<not> prefix (drop d PROBLEM_SEPARATOR) (butlast PROBLEM_SEPARATOR)"
  by (simp add: PROBLEM_SEPARATOR_def upt_rec)

lemma sep_longer: "\<not> sublist PROBLEM_SEPARATOR (butlast PROBLEM_SEPARATOR)"
  using sublist_length_le [of PROBLEM_SEPARATOR "butlast PROBLEM_SEPARATOR"]
  by (auto simp: PROBLEM_SEPARATOR_def)

lemma stem_prefix: "prefix separator_stem PROBLEM_SEPARATOR \<and> length separator_stem = 20"
  by (simp add: separator_stem_def PROBLEM_SEPARATOR_def)

lemma stem_free_clean:
  "\<not> sublist separator_stem t \<Longrightarrow>
   \<not> sublist PROBLEM_SEPARATOR (t @ butlast PROBLEM_SEPARATOR)"
proof (induction t)
  case Nil
  show ?case using sep_longer by (simp only: append_Nil not_False_eq_True)
next
  case (Cons c cs)
  let ?t = "c # cs"
  have "\<not> sublist separator_stem cs"
    using Cons.prems sublist_Cons_right [of separator_stem c cs] by blast
  then have ih: "\<not> sublist PROBLEM_SEPARATOR (cs @ butlast PROBLEM_SEPARATOR)"
    by (rule Cons.IH)
  have "\<not> prefix PROBLEM_SEPARATOR (?t @ butlast PROBLEM_SEPARATOR)"
  proof
    assume p: "prefix PROBLEM_SEPARATOR (?t @ butlast PROBLEM_SEPARATOR)"
    show False
    proof (cases "20 \<le> length ?t")
      case True
      have "prefix separator_stem (?t @ butlast PROBLEM_SEPARATOR)"
        using stem_prefix p prefix_order.trans by blast
      moreover have "prefix ?t (?t @ butlast PROBLEM_SEPARATOR)" by simp
      moreover have "length separator_stem \<le> length ?t" using True stem_prefix by simp
      ultimately have "prefix separator_stem ?t" by (rule prefix_length_prefix)
      then have "sublist separator_stem ?t" by (rule prefix_imp_sublist)
      with Cons.prems show False by blast
    next
      case False
      then have d: "length ?t \<in> set [1..<20]" by simp
      have "prefix (drop (length ?t) PROBLEM_SEPARATOR) (drop (length ?t) (?t @ butlast PROBLEM_SEPARATOR))"
        using p by (rule drop_prefix_mono)
      then have "prefix (drop (length ?t) PROBLEM_SEPARATOR) (butlast PROBLEM_SEPARATOR)"
        by (simp only: drop_append drop_all order_refl diff_self_eq_0 drop_0 append_Nil)
      with sep_no_border d show False by blast
    qed
  qed
  then show ?case
    using ih sublist_Cons_right [of PROBLEM_SEPARATOR c "cs @ butlast PROBLEM_SEPARATOR"]
    by (simp only: append_Cons) blast
qed

lemma sublist_skip_left:
  "sep \<noteq> [] \<Longrightarrow> hd sep \<notin> set pre \<Longrightarrow> sublist sep (pre @ s) \<longleftrightarrow> sublist sep s"
proof (induction pre)
  case Nil
  then show ?case by simp
next
  case (Cons c pre)
  have "\<not> prefix sep (c # pre @ s)"
    using Cons.prems by (cases sep) auto
  then show ?case using Cons by (simp add: sublist_Cons_right)
qed

lemma sublist_skip_right:
  assumes "sep \<noteq> []" "last sep \<notin> set post"
  shows "sublist sep (s @ post) \<longleftrightarrow> sublist sep s"
proof -
  have "sublist (rev sep) (rev post @ rev s) \<longleftrightarrow> sublist (rev sep) (rev s)"
    using assms by (intro sublist_skip_left) (simp_all add: hd_rev)
  then show ?thesis by (metis rev_append sublist_rev)
qed

section \<open>The fence\<close>

lemma trimMarkdownFence_unfolded:
  "trimMarkdownFence s =
     (if prefix fence (trim s) \<and> suffix fence (trim s) \<and> 6 \<le> length (trim s)
      then trim (dropWhile is_word (take (length (trim s) - 6) (drop 3 (trim s))))
      else trim s)"
proof -
  let ?inner = "take (length (trim s) - 6) (drop 3 (trim s))"
  have "trim (case ?inner of [] \<Rightarrow> [] | c # r \<Rightarrow> if c = CHR 0x0A then r else ?inner) = trim ?inner"
  proof (cases ?inner)
    case Nil
    then show ?thesis by (simp only: list.case)
  next
    case (Cons c r)
    have "trim (if c = CHR 0x0A then r else c # r) = trim (c # r)"
      using newline_space by (simp add: trim_Cons_space)
    then show ?thesis using Cons by (simp only: list.case)
  qed
  moreover have "takeWhile is_word ?inner = [] \<Longrightarrow> dropWhile is_word ?inner = ?inner"
    by (metis append_Nil takeWhile_dropWhile_id)
  ultimately show ?thesis
    by (simp add: trimMarkdownFence_def fence_match_def Let_def)
qed

lemma wrap_fence_no_separator:
  assumes "list_all is_word tag" "\<not> sublist PROBLEM_SEPARATOR body"
  shows "\<not> sublist PROBLEM_SEPARATOR (wrap_fence tag body)"
proof -
  have l: "hd PROBLEM_SEPARATOR \<notin> set (fence @ tag @ ''\<newline>'')"
    using assms(1) word_not_dash by (auto simp: sep_ends fence_def list_all_iff)
  have r: "last PROBLEM_SEPARATOR \<notin> set (''\<newline>'' @ fence)"
    by (simp add: sep_ends fence_def)
  have "sublist PROBLEM_SEPARATOR ((fence @ tag @ ''\<newline>'') @ body @ (''\<newline>'' @ fence)) \<longleftrightarrow>
        sublist PROBLEM_SEPARATOR body"
    using sublist_skip_left [OF sep_nonempty l] sublist_skip_right [OF sep_nonempty r]
    by (simp only:)
  then show ?thesis using assms(2) by (simp add: wrap_fence_def)
qed

lemma trim_wrap_fence: "trim (wrap_fence tag body) = wrap_fence tag body"
proof (rule trim_fixed)
  show "wrap_fence tag body \<noteq> []" by (simp add: wrap_fence_def fence_def)
  show "\<not> is_space (hd (wrap_fence tag body))"
    by (simp add: wrap_fence_def fence_def is_space_def)
  show "\<not> is_space (last (wrap_fence tag body))"
    by (simp add: wrap_fence_def fence_def is_space_def)
qed

lemma trimMarkdownFence_wrap_fence:
  assumes "list_all is_word tag"
  shows "trimMarkdownFence (wrap_fence tag body) = trim body"
proof -
  let ?w = "wrap_fence tag body"
  have len: "length ?w = length tag + length body + 8" by (simp add: wrap_fence_def fence_def)
  have inner: "take (length ?w - 6) (drop 3 ?w) = tag @ ''\<newline>'' @ body @ ''\<newline>''"
    by (simp add: wrap_fence_def fence_def)
  have pre: "prefix fence ?w" by (simp add: wrap_fence_def)
  have suf: "suffix fence ?w"
    unfolding wrap_fence_def by (metis append_assoc suffixI)
  have dw: "dropWhile is_word (tag @ ''\<newline>'' @ body @ ''\<newline>'') = ''\<newline>'' @ body @ ''\<newline>''"
    using assms newline_not_word by (simp add: dropWhile_append list_all_iff)
  have "trimMarkdownFence ?w = trim (''\<newline>'' @ body @ ''\<newline>'')"
    using pre suf len inner dw
    by (simp add: trimMarkdownFence_unfolded trim_wrap_fence del: append.simps)
  also have "\<dots> = trim body"
    using newline_space trim_Cons_space [of "CHR 0x0A" "body @ ''\<newline>''"]
      trim_snoc_space [of "CHR 0x0A" body] by simp
  finally show ?thesis .
qed

section \<open>The loop over the chunks\<close>

lemma solve_chunk_cases:
  "solve_chunk lexer found chunk = found \<or>
   (\<exists>p. solve_chunk lexer found chunk = found @ [p] \<and>
        steps p = parseSteps lexer (explanation p) \<and>
        trim (problem p) = problem p \<and> trim (explanation p) = explanation p \<and>
        trim (answer p) = answer p)"
  by (simp add: solve_chunk_def Let_def or_empty_section_trimmed)

lemma foldl_solve_chunk_inv:
  assumes "\<forall>p\<in>set found. Q p"
    and "\<And>p. steps p = parseSteps lexer (explanation p) \<Longrightarrow> trim (problem p) = problem p \<Longrightarrow>
           trim (explanation p) = explanation p \<Longrightarrow> trim (answer p) = answer p \<Longrightarrow> Q p"
  shows "\<forall>p\<in>set (foldl (solve_chunk lexer) found chunks). Q p"
  using assms(1)
proof (induction chunks arbitrary: found)
  case Nil
  then show ?case by simp
next
  case (Cons c cs)
  have "\<forall>p\<in>set (solve_chunk lexer found c). Q p"
    using solve_chunk_cases [of lexer found c] Cons.prems assms(2) by auto
  then show ?case using Cons.IH by simp
qed

lemma foldl_solve_chunk_blank:
  "\<forall>c\<in>set chunks. trim c = [] \<Longrightarrow> foldl (solve_chunk lexer) found chunks = found"
  by (induction chunks arbitrary: found) (simp_all add: solve_chunk_def)

lemma blank_response_no_problems:
  assumes "trim r = []"
  shows "foldl (solve_chunk lexer) [] (split PROBLEM_SEPARATOR r) = []"
proof (rule foldl_solve_chunk_blank)
  show "\<forall>c\<in>set (split PROBLEM_SEPARATOR r). trim c = []"
    using assms split_from_chars [of _ PROBLEM_SEPARATOR "[]" r]
    by (fastforce simp: trim_Nil_iff split_def)
qed

lemma parseSolveResponse_shape:
  "parseSolveResponse lexer r = \<lparr>problems = foldl (solve_chunk lexer) [] (split PROBLEM_SEPARATOR r)\<rparr> \<or>
   parseSolveResponse lexer r = \<lparr>problems = [error_solution r]\<rparr>"
  by (simp add: parseSolveResponse_def Let_def)

lemma solve_chunk_append: "solve_chunk lexer found chunk = found @ solve_chunk lexer [] chunk"
  by (simp add: solve_chunk_def Let_def)

lemma solve_chunk_wrap_fence:
  assumes "list_all is_word tag" "fence_match (trim body) = None" "trim body \<noteq> []"
  shows "solve_chunk lexer found (wrap_fence tag body) = solve_chunk lexer found body"
proof -
  have "wrap_fence tag body \<noteq> []" by (simp add: wrap_fence_def fence_def)
  then have w: "trim (wrap_fence tag body) \<noteq> []" by (simp add: trim_wrap_fence)
  have "trimMarkdownFence body = trim body" using assms(2) by (simp add: trimMarkdownFence_def)
  then have "MarkdownSectionParser lexer (wrap_fence tag body) = MarkdownSectionParser lexer body"
    using trimMarkdownFence_wrap_fence [OF assms(1), of body] by (simp add: MarkdownSectionParser_def)
  then show ?thesis using assms(3) w by (simp add: solve_chunk_def)
qed

lemma well_formed_chunk:
  assumes "well_formed_problem lexer t"
  shows "length (solve_chunk lexer [] t) = 1"
  using assms by (auto simp: well_formed_problem_def solve_chunk_def Let_def)

lemma well_formed_no_separator:
  assumes "well_formed_problem lexer t"
  shows "\<not> sublist PROBLEM_SEPARATOR t"
proof
  assume "sublist PROBLEM_SEPARATOR t"
  then obtain ps ss where "t = ps @ PROBLEM_SEPARATOR @ ss" by (auto simp: sublist_def)
  then have "t @ butlast PROBLEM_SEPARATOR = ps @ PROBLEM_SEPARATOR @ (ss @ butlast PROBLEM_SEPARATOR)"
    by simp
  then have "sublist PROBLEM_SEPARATOR (t @ butlast PROBLEM_SEPARATOR)"
    unfolding sublist_def by blast
  with assms show False by (simp add: well_formed_problem_def)
qed

lemma well_formed_alone:
  assumes "well_formed_problem lexer t"
  shows "problems (parseSolveResponse lexer t) = solve_chunk lexer [] t"
  using well_formed_chunk [OF assms] split_single [OF well_formed_no_separator [OF assms]]
  by (auto simp: parseSolveResponse_def Let_def)

section \<open>Steps are derived from the explanation\<close>

text \<open>
  C1. Every record that the loop of \<open>parseSolveResponse\<close> builds from a chunk has as
  steps the result of \<open>parseSteps\<close> on its own explanation, and so has every result of
  \<open>parseImproveResponse\<close>. The response holds either exactly these records or the one
  synthetic record, whose steps are the single step titled \<^verbatim>\<open>Error\<close> with the whole
  input as content; these are not derived by \<open>parseSteps\<close>.
\<close>

theorem steps_derived_from_explanation:
  "(\<forall>p\<in>set (foldl (solve_chunk lexer) [] (split PROBLEM_SEPARATOR r)).
      steps p = parseSteps lexer (explanation p)) \<and>
   (parseSolveResponse lexer r =
      \<lparr>problems = foldl (solve_chunk lexer) [] (split PROBLEM_SEPARATOR r)\<rparr> \<or>
    parseSolveResponse lexer r = \<lparr>problems = [error_solution r]\<rparr>) \<and>
   steps (error_solution r) = [\<lparr>title = ''Error'', content = r\<rparr>] \<and>
   (\<forall>res. parseImproveResponse lexer r = Some res \<longrightarrow>
      improved_steps res = parseSteps lexer (improved_explanation res))"
proof -
  have "\<forall>p\<in>set (foldl (solve_chunk lexer) [] (split PROBLEM_SEPARATOR r)).
          steps p = parseSteps lexer (explanation p)"
    by (rule foldl_solve_chunk_inv) simp_all
  moreover have "\<forall>res. parseImproveResponse lexer r = Some res \<longrightarrow>
      improved_steps res = parseSteps lexer (improved_explanation res)"
    by (auto simp: parseImproveResponse_def Let_def)
  ultimately show ?thesis
    using parseSolveResponse_shape [of lexer r] by (simp add: error_solution_def)
qed

theorem steps_derived_from_explanation_witness:
  "parseSteps md_lexer ''#### Step 1: A\<newline>C1\<newline>#### Step 2: B\<newline>C2'' =
     [\<lparr>title = ''Step 1: A'', content = ''C1''\<rparr>, \<lparr>title = ''Step 2: B'', content = ''C2''\<rparr>] \<and>
   parseSteps md_lexer [] = []"
proof -
  have a: "foldl (solve_chunk md_lexer) [] (split PROBLEM_SEPARATOR round_trip_input) =
      [\<lparr>problem = ''P'', explanation = ''#### Step 1: A\<newline>C1\<newline>#### Step 2: B\<newline>C2'',
        answer = ''X'',
        steps = [\<lparr>title = ''Step 1: A'', content = ''C1''\<rparr>,
                 \<lparr>title = ''Step 2: B'', content = ''C2''\<rparr>]\<rparr>]"
    by code_simp
  have b: "parseImproveResponse md_lexer answer_only =
      Some \<lparr>improved_answer = ''42'', improved_explanation = [], improved_steps = []\<rparr>"
    by code_simp
  show ?thesis
    using steps_derived_from_explanation [of md_lexer round_trip_input]
      steps_derived_from_explanation [of md_lexer answer_only] a b
    by simp
qed

theorem fallback_steps_not_derived:
  "steps (hd (problems (parseSolveResponse md_lexer ''just plain text''))) \<noteq>
   parseSteps md_lexer
     (explanation (hd (problems (parseSolveResponse md_lexer ''just plain text''))))"
  by code_simp

section \<open>A well-formed response\<close>

text \<open>
  C2. The response with the sections \<^verbatim>\<open>PROBLEM_TEXT\<close>, \<^verbatim>\<open>EXPLANATION\<close> (two steps) and
  \<^verbatim>\<open>ANSWER\<close> gives exactly one record: problem \<^verbatim>\<open>P\<close>, answer \<^verbatim>\<open>X\<close>, the explanation with
  both headings of depth 4 and their bodies, and the two steps \<^verbatim>\<open>Step 1: A\<close> with content
  \<^verbatim>\<open>C1\<close> and \<^verbatim>\<open>Step 2: B\<close> with content \<^verbatim>\<open>C2\<close>.
\<close>

theorem round_trip:
  "parseSolveResponse md_lexer
     ''### PROBLEM_TEXT\<newline>P\<newline>### EXPLANATION\<newline>#### Step 1: A\<newline>C1\<newline>#### Step 2: B\<newline>C2\<newline>### ANSWER\<newline>X'' =
   \<lparr>problems =
      [\<lparr>problem = ''P'',
        explanation = ''#### Step 1: A\<newline>C1\<newline>#### Step 2: B\<newline>C2'',
        answer = ''X'',
        steps = [\<lparr>title = ''Step 1: A'', content = ''C1''\<rparr>,
                 \<lparr>title = ''Step 2: B'', content = ''C2''\<rparr>]\<rparr>]\<rparr>"
  by code_simp

section \<open>The fence stripper\<close>

text \<open>
  C3, as amended. When the trimmed input does not both begin and end with three
  backticks, or has fewer than six characters, \<open>trimMarkdownFence\<close> returns the input
  trimmed. Otherwise it removes the first three and the last three backticks and the word
  characters that follow the opening ones, and trims the rest, whether or not the two
  markers belong to one enclosing fence.
\<close>

theorem trimMarkdownFence_result:
  "trimMarkdownFence s =
     (if prefix fence (trim s) \<and> suffix fence (trim s) \<and> 6 \<le> length (trim s)
      then trim (dropWhile is_word (take (length (trim s) - 6) (drop 3 (trim s))))
      else trim s)"
  by (rule trimMarkdownFence_unfolded)

theorem two_fences_stripped:
  "trim two_fences = two_fences \<and>
   trimMarkdownFence two_fences = ''a\<newline>'' @ fence @ ''\<newline>middle\<newline>'' @ fence @ ''\<newline>b'' \<and>
   trimMarkdownFence two_fences \<noteq> trim two_fences"
  by code_simp

section \<open>Failure of the improve response\<close>

text \<open>
  C4. \<open>parseImproveResponse\<close> fails exactly when both the section
  \<^verbatim>\<open>IMPROVED_EXPLANATION\<close> and the section \<^verbatim>\<open>IMPROVED_ANSWER\<close> are absent or empty.
  In every other case its result has the two section bodies, the empty text for a
  missing one, and the steps that \<open>parseSteps\<close> derives from the explanation, none
  when the explanation is empty. The response \<^verbatim>\<open>### UNRELATED\<close>, \<^verbatim>\<open>foo\<close> is a failure.
\<close>

theorem parseImproveResponse_failure:
  "(parseImproveResponse lexer r = None \<longleftrightarrow>
      getSectionsByH3 (MarkdownSectionParser lexer r) ''IMPROVED_EXPLANATION'' \<in> {None, Some []} \<and>
      getSectionsByH3 (MarkdownSectionParser lexer r) ''IMPROVED_ANSWER'' \<in> {None, Some []}) \<and>
   (\<forall>res. parseImproveResponse lexer r = Some res \<longrightarrow>
      improved_explanation res =
        or_empty (getSectionsByH3 (MarkdownSectionParser lexer r) ''IMPROVED_EXPLANATION'') \<and>
      improved_answer res =
        or_empty (getSectionsByH3 (MarkdownSectionParser lexer r) ''IMPROVED_ANSWER'') \<and>
      improved_steps res = parseSteps lexer (improved_explanation res) \<and>
      (improved_explanation res = [] \<longrightarrow> improved_steps res = [])) \<and>
   parseImproveResponse md_lexer ''### UNRELATED\<newline>foo'' = None"
proof -
  have a: "parseImproveResponse md_lexer ''### UNRELATED\<newline>foo'' = None" by code_simp
  have e: "parseSteps lexer [] = []" by (simp add: parseSteps_def)
  show ?thesis
    using a e by (auto simp: parseImproveResponse_def Let_def falsy_def)
qed

theorem parseImproveResponse_failure_witness:
  "getSectionsByH3 (MarkdownSectionParser md_lexer answer_only) ''IMPROVED_EXPLANATION'' = None \<and>
   getSectionsByH3 (MarkdownSectionParser md_lexer answer_only) ''IMPROVED_ANSWER'' = Some ''42'' \<and>
   (\<exists>res. parseImproveResponse md_lexer answer_only = Some res \<and>
      improved_answer res = ''42'' \<and> improved_explanation res = [] \<and> improved_steps res = [])"
proof -
  have s1: "getSectionsByH3 (MarkdownSectionParser md_lexer answer_only) ''IMPROVED_EXPLANATION'' = None"
    by code_simp
  have s2: "getSectionsByH3 (MarkdownSectionParser md_lexer answer_only) ''IMPROVED_ANSWER'' = Some ''42''"
    by code_simp
  have "parseImproveResponse md_lexer answer_only \<noteq> None"
    using parseImproveResponse_failure [of md_lexer answer_only] s2 by simp
  then obtain res where r: "parseImproveResponse md_lexer answer_only = Some res" by blast
  then have "improved_answer res = ''42'' \<and> improved_explanation res = [] \<and> improved_steps res = []"
    using parseImproveResponse_failure [of md_lexer answer_only] s1 s2 by (auto simp: or_empty_def)
  then show ?thesis using s1 s2 r by simp
qed

section \<open>The fallback of the solve response\<close>

text \<open>
  C5. \<open>parseSolveResponse\<close> is a total function of the response. When the chunks give
  no record and the response is not blank, the result is the one synthetic record with
  problem \<^verbatim>\<open>Error parsing problem text\<close>, an empty answer, the whole response as
  explanation and the single step titled \<^verbatim>\<open>Error\<close> with the whole response as content;
  so it is for \<^verbatim>\<open>just plain text\<close>. When the response is blank the result has no
  record.
\<close>

theorem parseSolveResponse_fallback:
  "(foldl (solve_chunk lexer) [] (split PROBLEM_SEPARATOR r) = [] \<and> trim r \<noteq> [] \<longrightarrow>
      parseSolveResponse lexer r =
        \<lparr>problems = [\<lparr>problem = ''Error parsing problem text'', explanation = r, answer = [],
                       steps = [\<lparr>title = ''Error'', content = r\<rparr>]\<rparr>]\<rparr>) \<and>
   (trim r = [] \<longrightarrow> parseSolveResponse lexer r = \<lparr>problems = []\<rparr>) \<and>
   parseSolveResponse md_lexer ''just plain text'' =
     \<lparr>problems = [\<lparr>problem = ''Error parsing problem text'', explanation = ''just plain text'',
                    answer = [], steps = [\<lparr>title = ''Error'', content = ''just plain text''\<rparr>]\<rparr>]\<rparr> \<and>
   parseSolveResponse md_lexer [] = \<lparr>problems = []\<rparr>"
proof -
  have a: "parseSolveResponse md_lexer ''just plain text'' =
     \<lparr>problems = [\<lparr>problem = ''Error parsing problem text'', explanation = ''just plain text'',
                    answer = [], steps = [\<lparr>title = ''Error'', content = ''just plain text''\<rparr>]\<rparr>]\<rparr>"
    by code_simp
  have b: "parseSolveResponse md_lexer [] = \<lparr>problems = []\<rparr>" by code_simp
  have c: "trim r = [] \<longrightarrow> parseSolveResponse lexer r = \<lparr>problems = []\<rparr>"
    by (simp add: parseSolveResponse_def Let_def blank_response_no_problems)
  show ?thesis using a b c by (simp add: parseSolveResponse_def Let_def error_solution_def)
qed

theorem parseSolveResponse_fallback_witness:
  "foldl (solve_chunk md_lexer) [] (split PROBLEM_SEPARATOR ''no headings here'') = [] \<and>
   trim ''no headings here'' \<noteq> [] \<and>
   parseSolveResponse md_lexer ''no headings here'' =
     \<lparr>problems = [\<lparr>problem = ''Error parsing problem text'', explanation = ''no headings here'',
                    answer = [], steps = [\<lparr>title = ''Error'', content = ''no headings here''\<rparr>]\<rparr>]\<rparr> \<and>
   trim '' \<newline>  '' = [] \<and>
   parseSolveResponse md_lexer '' \<newline>  '' = \<lparr>problems = []\<rparr>"
proof -
  have h1: "foldl (solve_chunk md_lexer) [] (split PROBLEM_SEPARATOR ''no headings here'') = []"
    by code_simp
  have h2: "trim ''no headings here'' \<noteq> []" by code_simp
  have h3: "trim '' \<newline>  '' = []" by code_simp
  show ?thesis
    using h1 h2 h3 parseSolveResponse_fallback [of md_lexer "''no headings here''"]
      parseSolveResponse_fallback [of md_lexer "'' \<newline>  ''"]
    by simp
qed

section \<open>A heading key that occurs twice\<close>




section \<open>The step splitter without headings\<close>

text \<open>
  C7. When the body is not blank and its tokens hold no heading of depth 4,
  \<open>parseSteps\<close> returns the single step titled \<^verbatim>\<open>Detailed Explanation\<close> whose content
  is the trimmed body. When the body is empty the result is empty; a blank body without
  such headings gives the empty result too.
\<close>

theorem parseSteps_fallback:
  "(trim body \<noteq> [] \<and> (\<forall>t\<in>set (lexer body). \<not> is_heading 4 t) \<longrightarrow>
     parseSteps lexer body = [\<lparr>title = ''Detailed Explanation'', content = trim body\<rparr>]) \<and>
   (trim body = [] \<and> (\<forall>t\<in>set (lexer body). \<not> is_heading 4 t) \<longrightarrow>
     parseSteps lexer body = []) \<and>
   (body = [] \<longrightarrow> parseSteps lexer body = [])"
  by (auto simp: parseSteps_def steps_step_none)

theorem parseSteps_fallback_witness:
  "trim ''plain text'' \<noteq> [] \<and> filter (is_heading 4) (md_lexer ''plain text'') = [] \<and>
   parseSteps md_lexer ''plain text'' =
     [\<lparr>title = ''Detailed Explanation'', content = ''plain text''\<rparr>] \<and>
   trim ''  '' = [] \<and> filter (is_heading 4) (md_lexer ''  '') = [] \<and>
   parseSteps md_lexer ''  '' = [] \<and>
   parseSteps md_lexer [] = []"
proof -
  have t1: "trim ''plain text'' = ''plain text''" by code_simp
  have f1: "filter (is_heading 4) (md_lexer ''plain text'') = []" by code_simp
  have t2: "trim ''  '' = []" by code_simp
  have f2: "filter (is_heading 4) (md_lexer ''  '') = []" by code_simp
  have h1: "\<forall>t\<in>set (md_lexer ''plain text''). \<not> is_heading 4 t"
    using f1 by (simp only: filter_empty_conv)
  have h2: "\<forall>t\<in>set (md_lexer ''  ''). \<not> is_heading 4 t"
    using f2 by (simp only: filter_empty_conv)
  show ?thesis
    using t1 t2 f1 f2 h1 h2 parseSteps_fallback [of "''plain text''" md_lexer]
      parseSteps_fallback [of "''  ''" md_lexer] parseSteps_fallback [of "[]" md_lexer]
    by simp
qed

section \<open>A response inside a fence\<close>

text \<open>
  C8, as amended. Let the body hold no separator, be not blank, be not itself a text
  between two fence markers, and parse to something else than the synthetic record.
  Then the body wrapped once in a fence, with a tag of word characters or without one,
  parses to the same response as the body.
\<close>

theorem fenced_response_same:
  assumes "list_all is_word tag"
    and "\<not> sublist PROBLEM_SEPARATOR body"
    and "fence_match (trim body) = None"
    and "trim body \<noteq> []"
    and "parseSolveResponse lexer body \<noteq> \<lparr>problems = [error_solution body]\<rparr>"
  shows "parseSolveResponse lexer (wrap_fence tag body) = parseSolveResponse lexer body"
proof -
  have sb: "split PROBLEM_SEPARATOR body = [body]" using assms(2) by (rule split_single)
  have sw: "split PROBLEM_SEPARATOR (wrap_fence tag body) = [wrap_fence tag body]"
    using wrap_fence_no_separator [OF assms(1,2)] by (rule split_single)
  have ne: "solve_chunk lexer [] body \<noteq> []"
    using assms(4,5) sb by (auto simp: parseSolveResponse_def Let_def)
  have eq: "solve_chunk lexer [] (wrap_fence tag body) = solve_chunk lexer [] body"
    using assms(1,3,4) by (rule solve_chunk_wrap_fence)
  show ?thesis using sb sw ne eq by (simp add: parseSolveResponse_def Let_def)
qed

theorem fenced_response_same_witness:
  "parseSolveResponse md_lexer (wrap_fence ''markdown'' round_trip_input) =
     parseSolveResponse md_lexer round_trip_input \<and>
   parseSolveResponse md_lexer (wrap_fence [] round_trip_input) =
     parseSolveResponse md_lexer round_trip_input"
proof -
  have t1: "list_all is_word ''markdown''" by code_simp
  have t2: "list_all is_word []" by simp
  have b1: "\<not> sublist PROBLEM_SEPARATOR round_trip_input" by code_simp
  have b2: "fence_match (trim round_trip_input) = None" by code_simp
  have b3: "trim round_trip_input \<noteq> []" by code_simp
  have b4: "parseSolveResponse md_lexer round_trip_input \<noteq>
      \<lparr>problems = [error_solution round_trip_input]\<rparr>" by code_simp
  show ?thesis
    using fenced_response_same [OF t1 b1 b2 b3 b4] fenced_response_same [OF t2 b1 b2 b3 b4]
    by simp
qed

theorem fenced_fallback_differs:
  "parseSolveResponse md_lexer (wrap_fence [] ''just plain text'') \<noteq>
   parseSolveResponse md_lexer ''just plain text''"
  by code_simp

section \<open>Two problems joined by the separator\<close>

text \<open>
  C9. Two well-formed texts of one problem each, joined by the separator, parse to
  exactly two records: the record of the first text, then the record of the second.
\<close>

theorem joined_problems_in_order:
  assumes "well_formed_problem lexer a" and "well_formed_problem lexer b"
  shows "problems (parseSolveResponse lexer (a @ PROBLEM_SEPARATOR @ b)) =
           problems (parseSolveResponse lexer a) @ problems (parseSolveResponse lexer b) \<and>
         length (problems (parseSolveResponse lexer a)) = 1 \<and>
         length (problems (parseSolveResponse lexer b)) = 1"
proof -
  have "\<not> sublist PROBLEM_SEPARATOR (a @ butlast PROBLEM_SEPARATOR)"
    using assms(1) by (simp add: well_formed_problem_def)
  then have "split PROBLEM_SEPARATOR (a @ PROBLEM_SEPARATOR @ b) = a # split PROBLEM_SEPARATOR b"
    using split_from_join [OF sep_nonempty, of a "[]" b] by (simp add: split_def)
  then have sp: "split PROBLEM_SEPARATOR (a @ PROBLEM_SEPARATOR @ b) = [a, b]"
    using split_single [OF well_formed_no_separator [OF assms(2)]] by simp
  have "foldl (solve_chunk lexer) [] [a, b] = solve_chunk lexer [] a @ solve_chunk lexer [] b"
    using solve_chunk_append [of lexer "solve_chunk lexer [] a" b] by simp
  moreover have "solve_chunk lexer [] a \<noteq> []" using well_formed_chunk [OF assms(1)] by auto
  ultimately have "problems (parseSolveResponse lexer (a @ PROBLEM_SEPARATOR @ b)) =
      solve_chunk lexer [] a @ solve_chunk lexer [] b"
    using sp by (simp add: parseSolveResponse_def Let_def)
  then show ?thesis
    using well_formed_alone [OF assms(1)] well_formed_alone [OF assms(2)]
      well_formed_chunk [OF assms(1)] well_formed_chunk [OF assms(2)] by simp
qed

theorem joined_problems_in_order_witness:
  "well_formed_problem md_lexer round_trip_input \<and> well_formed_problem md_lexer second_input \<and>
   problems (parseSolveResponse md_lexer (round_trip_input @ PROBLEM_SEPARATOR @ second_input)) =
     [\<lparr>problem = ''P'', explanation = ''#### Step 1: A\<newline>C1\<newline>#### Step 2: B\<newline>C2'',
       answer = ''X'',
       steps = [\<lparr>title = ''Step 1: A'', content = ''C1''\<rparr>,
                \<lparr>title = ''Step 2: B'', content = ''C2''\<rparr>]\<rparr>,
      \<lparr>problem = ''Q'', explanation = [], answer = ''Y'', steps = []\<rparr>]"
proof -
  have w1: "well_formed_problem md_lexer round_trip_input" by code_simp
  have w2: "well_formed_problem md_lexer second_input" by code_simp
  have p1: "problems (parseSolveResponse md_lexer round_trip_input) =
     [\<lparr>problem = ''P'', explanation = ''#### Step 1: A\<newline>C1\<newline>#### Step 2: B\<newline>C2'',
       answer = ''X'',
       steps = [\<lparr>title = ''Step 1: A'', content = ''C1''\<rparr>,
                \<lparr>title = ''Step 2: B'', content = ''C2''\<rparr>]\<rparr>]"
    by code_simp
  have p2: "problems (parseSolveResponse md_lexer second_input) =
     [\<lparr>problem = ''Q'', explanation = [], answer = ''Y'', steps = []\<rparr>]"
    by code_simp
  show ?thesis
    using w1 w2 p1 p2 joined_problems_in_order [OF w1 w2] by simp
qed

section \<open>Trimmed fields\<close>

text \<open>
  C10. Every record that the loop of \<open>parseSolveResponse\<close> builds from a chunk has a
  trimmed problem, explanation and answer, and steps with trimmed titles and contents.
  The response holds either exactly these records or the one synthetic record, whose
  explanation and step content are the response as it was given, with its surrounding
  white space.
\<close>

theorem chunk_fields_trimmed:
  "(\<forall>p\<in>set (foldl (solve_chunk lexer) [] (split PROBLEM_SEPARATOR r)). fully_trimmed p) \<and>
   (parseSolveResponse lexer r =
      \<lparr>problems = foldl (solve_chunk lexer) [] (split PROBLEM_SEPARATOR r)\<rparr> \<or>
    parseSolveResponse lexer r = \<lparr>problems = [error_solution r]\<rparr>) \<and>
   explanation (error_solution r) = r \<and>
   map content (steps (error_solution r)) = [r]"
proof -
  have "\<forall>p\<in>set (foldl (solve_chunk lexer) [] (split PROBLEM_SEPARATOR r)). fully_trimmed p"
  proof (rule foldl_solve_chunk_inv)
    fix p :: ProblemSolution
    assume "steps p = parseSteps lexer (explanation p)" "trim (problem p) = problem p"
      "trim (explanation p) = explanation p" "trim (answer p) = answer p"
    then show "fully_trimmed p"
      using parseSteps_trimmed [of _ lexer "explanation p"]
      by (simp add: fully_trimmed_def list_all_iff)
  qed simp
  then show ?thesis
    using parseSolveResponse_shape [of lexer r] by (simp add: error_solution_def)
qed

theorem chunk_fields_trimmed_witness:
  "list_all fully_trimmed (problems (parseSolveResponse md_lexer round_trip_input)) \<and>
   parseSolveResponse md_lexer '' x '' = \<lparr>problems = [error_solution '' x '']\<rparr> \<and>
   explanation (error_solution '' x '') = '' x '' \<and>
   trim '' x '' = ''x''"
proof -
  have a: "parseSolveResponse md_lexer round_trip_input =
      \<lparr>problems = foldl (solve_chunk md_lexer) [] (split PROBLEM_SEPARATOR round_trip_input)\<rparr>"
    by code_simp
  have b: "parseSolveResponse md_lexer '' x '' = \<lparr>problems = [error_solution '' x '']\<rparr>"
    by code_simp
  have c: "trim '' x '' = ''x''" by code_simp
  show ?thesis
    using a b c chunk_fields_trimmed [of md_lexer round_trip_input]
      chunk_fields_trimmed [of md_lexer "'' x ''"]
    by (simp add: list_all_iff)
qed

end
